theory Spec2Isabelle
  imports Complex_Main "HOL-Library.Sublist"
begin

section \<open>User-agent classification (professional-it-cv component)\<close>

text \<open>
  \<^verbatim>\<open>userAgent.includes(pattern)\<close>: the pattern occurs as a contiguous run of
  the string. JavaScript compares UTF-16 code units; every pattern of the classifier is
  ASCII, so matching on the byte string gives the same answer.
\<close>

definition str_includes :: "string \<Rightarrow> string \<Rightarrow> bool" where
  "str_includes userAgent pat = sublist pat userAgent"

text \<open>
  \<^verbatim>\<open>
  const detectBrowser = (userAgent: string): string => {
    if (userAgent.includes('Firefox')) return 'Firefox'
    if (userAgent.includes('Chrome')) return 'Chrome'
    if (userAgent.includes('Safari')) return 'Safari'
    if (userAgent.includes('Edge')) return 'Edge'
    if (userAgent.includes('Opera')) return 'Opera'
    return 'Unknown'
  }
  \<close>
\<close>

definition detectBrowser :: "string \<Rightarrow> string" where
  "detectBrowser userAgent =
     (if str_includes userAgent ''Firefox'' then ''Firefox''
      else if str_includes userAgent ''Chrome'' then ''Chrome''
      else if str_includes userAgent ''Safari'' then ''Safari''
      else if str_includes userAgent ''Edge'' then ''Edge''
      else if str_includes userAgent ''Opera'' then ''Opera''
      else ''Unknown'')"

text \<open>
  \<^verbatim>\<open>
  const detectOS = (userAgent: string): string => {
    if (userAgent.includes('Windows')) return 'Windows'
    if (userAgent.includes('Mac')) return 'macOS'
    if (userAgent.includes('Linux')) return 'Linux'
    if (userAgent.includes('Android')) return 'Android'
    if (userAgent.includes('iOS')) return 'iOS'
    return 'Unknown'
  }
  \<close>
\<close>

definition detectOS :: "string \<Rightarrow> string" where
  "detectOS userAgent =
     (if str_includes userAgent ''Windows'' then ''Windows''
      else if str_includes userAgent ''Mac'' then ''macOS''
      else if str_includes userAgent ''Linux'' then ''Linux''
      else if str_includes userAgent ''Android'' then ''Android''
      else if str_includes userAgent ''iOS'' then ''iOS''
      else ''Unknown'')"

section \<open>Visit recorder (professional-it-cv component)\<close>

text \<open>
  \<^verbatim>\<open>interface VisitorLog { ip: string; timestamp: string; os: string; browser: string }\<close>
\<close>

record VisitorLog =
  ip :: string
  timestamp :: string
  os :: string
  browser :: string

text \<open>
  The recorder talks to two collaborators it does not own. Their answers are inputs of
  the model:
  \<^item> the address lookup \<^verbatim>\<open>fetch('https://api.ipify.org?format=json', {signal})\<close>:
    the timer aborts it after 5000 ms (\<open>FetchAborted\<close>), the network rejects it
    (\<open>FetchRejects\<close>), or a response arrives with its \<^verbatim>\<open>ok\<close> flag and the
    outcome of \<^verbatim>\<open>ipResponse.json()\<close>: a parse failure, the value \<^verbatim>\<open>null\<close>
    (reading \<^verbatim>\<open>ipData.ip\<close> then throws), or a value whose \<^verbatim>\<open>ip\<close> is read;
  \<^item> the store: the \<open>k\<close>-th call of \<^verbatim>\<open>insert([visitorLog]).select()\<close>
    (counted from 0) resolves without error, resolves with an \<^verbatim>\<open>error\<close> (which the
    code throws), or rejects.
\<close>

datatype json_outcome = JsonRejects | JsonNull | JsonValue string

datatype fetch_outcome = FetchAborted | FetchRejects | FetchResponse bool json_outcome

datatype insert_outcome = InsertOk | InsertError | InsertRejects

text \<open>What can be thrown inside \<^verbatim>\<open>logVisitorInfo\<close>.\<close>

datatype exn =
    AbortError
  | FetchFailed
  | FailedToFetchIP
  | JsonSyntaxError
  | NullPropertyRead
  | StoreError
  | StoreRejected

datatype console_line =
    Log_SuccessfullyLogged
  | Log_RequestTimedOut
  | Error_AfterAllRetries exn
  | Error_FailedToLog exn

record recorder_env =
  fetchIp :: fetch_outcome
  navigatorUserAgent :: string
  toISOString :: string
  insertOutcome :: "nat \<Rightarrow> insert_outcome"

text \<open>
  What the invocation can change: the \<^verbatim>\<open>isLoading\<close> flag of the component, the
  number of insert calls issued, the records the store has accepted, the number of
  one-second waits, and the console.
\<close>

record recorder_state =
  isLoading :: bool
  inserts :: nat
  persisted :: "VisitorLog list"
  sleeps :: nat
  console :: "console_line list"

text \<open>
  A block of statements either completes (\<open>None\<close>) or throws (\<open>Some e\<close>), and
  leaves a state behind in both cases.
\<close>

type_synonym completion = "exn option \<times> recorder_state"

text \<open>
  The inner \<^verbatim>\<open>try\<close> block of the retry loop:
  \<^verbatim>\<open>
  const { data, error } = await supabase.from('visitor_logs').insert([visitorLog]).select();
  if (error) throw error;
  console.log('Successfully logged visitor:', data);
  break;
  \<close>
\<close>

definition tryInsert :: "recorder_env \<Rightarrow> VisitorLog \<Rightarrow> recorder_state \<Rightarrow> completion" where
  "tryInsert env visitorLog st =
     (let st1 = st\<lparr>inserts := inserts st + 1\<rparr> in
      case insertOutcome env (inserts st) of
        InsertOk \<Rightarrow>
          (None, st1\<lparr>persisted := persisted st1 @ [visitorLog],
                      console := console st1 @ [Log_SuccessfullyLogged]\<rparr>)
      | InsertError \<Rightarrow> (Some StoreError, st1)
      | InsertRejects \<Rightarrow> (Some StoreRejected, st1))"

text \<open>
  \<^verbatim>\<open>
  while (retries > 0) {
    try { ... break; }
    catch (error) {
      retries--;
      if (retries === 0) {
        console.error('Failed to store visitor info after all retries:', error);
      }
      await new Promise(resolve => setTimeout(resolve, 1000));
    }
  }
  \<close>
\<close>

function insertLoop :: "recorder_env \<Rightarrow> VisitorLog \<Rightarrow> nat \<Rightarrow> recorder_state \<Rightarrow> completion" where
  "insertLoop env visitorLog retries st =
     (if retries > 0 then
        (case tryInsert env visitorLog st of
           (None, st1) \<Rightarrow> (None, st1)
         | (Some error, st1) \<Rightarrow>
             (let retries' = retries - 1;
                  st2 = (if retries' = 0
                         then st1\<lparr>console := console st1 @ [Error_AfterAllRetries error]\<rparr>
                         else st1);
                  st3 = st2\<lparr>sleeps := sleeps st2 + 1\<rparr>
              in insertLoop env visitorLog retries' st3))
      else (None, st))"
  by pat_completeness auto
termination
  by (relation "measure (\<lambda>(env, visitorLog, retries, st). retries)") auto

declare insertLoop.simps [simp del]

text \<open>
  The outer \<^verbatim>\<open>try\<close> block: the address lookup, the classification, the record,
  and the retry loop started with \<^verbatim>\<open>let retries = 3\<close>.
\<close>

definition tryBlock :: "recorder_env \<Rightarrow> recorder_state \<Rightarrow> completion" where
  "tryBlock env st =
     (case fetchIp env of
        FetchAborted \<Rightarrow> (Some AbortError, st)
      | FetchRejects \<Rightarrow> (Some FetchFailed, st)
      | FetchResponse ok body \<Rightarrow>
          if \<not> ok then (Some FailedToFetchIP, st)
          else (case body of
                  JsonRejects \<Rightarrow> (Some JsonSyntaxError, st)
                | JsonNull \<Rightarrow> (Some NullPropertyRead, st)
                | JsonValue ipAddr \<Rightarrow>
                    (let b = detectBrowser (navigatorUserAgent env);
                         s = detectOS (navigatorUserAgent env);
                         visitorLog = \<lparr>ip = ipAddr, timestamp = toISOString env,
                                       os = s, browser = b\<rparr>
                     in insertLoop env visitorLog 3 st)))"

text \<open>
  \<^verbatim>\<open>
  } catch (error: unknown) {
    if (error instanceof Error && error.name === 'AbortError') {
      console.log('Request timed out');
    } else {
      console.error('Failed to log visitor info:', error);
    }
  } finally {
    setIsLoading(false);
  }
  \<close>
\<close>

definition catchBlock :: "completion \<Rightarrow> completion" where
  "catchBlock r =
     (case r of
        (None, st) \<Rightarrow> (None, st)
      | (Some error, st) \<Rightarrow>
          (None, st\<lparr>console := console st @
             [if error = AbortError then Log_RequestTimedOut else Error_FailedToLog error]\<rparr>))"

definition finallyBlock :: "completion \<Rightarrow> completion" where
  "finallyBlock r = (case r of (thrown, st) \<Rightarrow> (thrown, st\<lparr>isLoading := False\<rparr>))"

text \<open>
  \<^verbatim>\<open>
  const logVisitorInfo = useCallback(async () => {
    if (isLoading) return;
    setIsLoading(true);
    try { ... } catch (error: unknown) { ... } finally { setIsLoading(false); }
  }, [isLoading]);
  \<close>
  The first component of the result is what the caller sees: \<open>None\<close> when the
  promise resolves, \<open>Some e\<close> when it rejects with \<open>e\<close>.
\<close>

definition logVisitorInfo :: "recorder_env \<Rightarrow> recorder_state \<Rightarrow> completion" where
  "logVisitorInfo env st =
     (if isLoading st then (None, st)
      else finallyBlock (catchBlock (tryBlock env (st\<lparr>isLoading := True\<rparr>))))"

section \<open>Stats aggregator (stats page)\<close>

subsection \<open>Rows and counters\<close>

text \<open>
  The stats pages read the rows back with the \<^verbatim>\<open>id\<close> the store gave them; the
  later page also reads \<^verbatim>\<open>device_type\<close>, \<^verbatim>\<open>device_model\<close> and
  \<^verbatim>\<open>time_zone\<close>.
\<close>

record VisitorLogRow = VisitorLog +
  row_id :: int

record VisitorLogRowDev = VisitorLogRow +
  device_type :: string
  device_model :: string
  time_zone :: string

text \<open>
  The dictionaries are plain objects created by \<^verbatim>\<open>{}\<close> and declared
  \<^verbatim>\<open>{ [key: string]: number }\<close>. A plain object inherits from
  \<^verbatim>\<open>Object.prototype\<close>, so reading a key that is not an own property can find an
  inherited function or, under \<^verbatim>\<open>__proto__\<close>, the prototype itself. The values
  that can be read or stored:
  \<^item> \<open>JUndefined\<close>, a number, a string;
  \<^item> \<open>JInheritedFunction f\<close>: the function \<^verbatim>\<open>Object.prototype[f]\<close>;
  \<^item> \<open>JObjectPrototype\<close>: \<^verbatim>\<open>Object.prototype\<close>, what the
    \<^verbatim>\<open>__proto__\<close> getter returns.
  A string is plain text, or \<open>SourceOf f suffix\<close>: the source text the host prints
  for \<^verbatim>\<open>Object.prototype[f]\<close> (it differs between hosts and is never empty)
  followed by \<open>suffix\<close>.
\<close>

datatype js_string = Plain string | SourceOf string string

datatype js_value =
    JUndefined
  | JNumber nat
  | JString js_string
  | JInheritedFunction string
  | JObjectPrototype

text \<open>
  An object is the list of its own properties, in the order of their creation. (The
  aggregation never enumerates a dictionary, so the order in which
  \<^verbatim>\<open>Object.entries\<close> lists the keys is not part of the model.)
\<close>

type_synonym counts = "(string \<times> js_value) list"

text \<open>The function-valued properties every plain object inherits.\<close>

definition inheritedFunctions :: "string list" where
  "inheritedFunctions =
     [''constructor'', ''__defineGetter__'', ''__defineSetter__'', ''hasOwnProperty'',
      ''__lookupGetter__'', ''__lookupSetter__'', ''isPrototypeOf'',
      ''propertyIsEnumerable'', ''toString'', ''valueOf'', ''toLocaleString'']"

text \<open>Every name a plain object inherits.\<close>

definition inheritedNames :: "string list" where
  "inheritedNames = ''__proto__'' # inheritedFunctions"

text \<open>\<^verbatim>\<open>counts[key]\<close> as a read: the own property, else the inherited one.\<close>

definition getProp :: "counts \<Rightarrow> string \<Rightarrow> js_value" where
  "getProp obj key =
     (case map_of obj key of
        Some v \<Rightarrow> v
      | None \<Rightarrow>
          if key = ''__proto__'' then JObjectPrototype
          else if key \<in> set inheritedFunctions then JInheritedFunction key
          else JUndefined)"

definition appendOne :: "js_string \<Rightarrow> js_string" where
  "appendOne s = (case s of Plain t \<Rightarrow> Plain (t @ ''1'') | SourceOf f t \<Rightarrow> SourceOf f (t @ ''1''))"

text \<open>
  \<^verbatim>\<open>(v || 0) + 1\<close>: \<^verbatim>\<open>undefined\<close>, 0 and the empty string are falsy and give
  \<open>0 + 1\<close>; a number gives its successor; a string, a function and an object are
  truthy, and \<open>+\<close> turns the last two into strings and concatenates.
\<close>

definition orZeroPlusOne :: "js_value \<Rightarrow> js_value" where
  "orZeroPlusOne v =
     (case v of
        JUndefined \<Rightarrow> JNumber 1
      | JNumber n \<Rightarrow> JNumber (n + 1)
      | JString s \<Rightarrow> (if s = Plain [] then JNumber 1 else JString (appendOne s))
      | JInheritedFunction f \<Rightarrow> JString (SourceOf f ''1'')
      | JObjectPrototype \<Rightarrow> JString (Plain ''[object Object]1''))"

text \<open>
  Writing an own property: an existing one is overwritten in place, a new one is
  created last.
\<close>

fun setProp :: "counts \<Rightarrow> string \<Rightarrow> js_value \<Rightarrow> counts" where
  "setProp [] key v = [(key, v)]"
| "setProp ((k, w) # rest) key v =
     (if k = key then (k, v) # rest else (k, w) # setProp rest key v)"

text \<open>
  \<^verbatim>\<open>counts[key] = (counts[key] || 0) + 1\<close>. The assignment creates or overwrites
  the own property \<open>key\<close> (the inherited functions are writable data properties),
  except for \<^verbatim>\<open>__proto__\<close>: that assignment calls the inherited setter, which
  ignores a number or a string, and the object stays as it was.
\<close>

definition increment :: "counts \<Rightarrow> string \<Rightarrow> counts" where
  "increment obj key =
     (let v = orZeroPlusOne (getProp obj key)
      in if key = ''__proto__'' then obj else setProp obj key v)"

text \<open>
  The sum of the counts of a grouping, as a reader of the aggregate takes it: defined
  when every value of the dictionary is a number.
\<close>

fun numericTotal :: "counts \<Rightarrow> nat option" where
  "numericTotal [] = Some 0"
| "numericTotal ((k, JNumber n) # rest) = map_option (\<lambda>t. n + t) (numericTotal rest)"
| "numericTotal ((k, v) # rest) = None"

subsection \<open>The viewer's clock\<close>

text \<open>
  Instants are time values: milliseconds since the epoch, UTC, unbounded here (the
  clipping of time values beyond 8.64e15 ms is left out). The host supplies the
  viewer's time zone and the date parser:
  \<^item> \<open>offsetAtUTC t\<close>: the local offset in force at the instant \<open>t\<close>;
  \<^item> \<open>offsetAtLocal tl\<close>: the offset the host uses to read the local time \<open>tl\<close>
    back into an instant (at a clock change it picks the offset before the change);
  \<^item> \<open>parseDate s\<close>: the time value of \<^verbatim>\<open>new Date(s)\<close>, \<open>None\<close> for an
    Invalid Date.
\<close>

record local_clock =
  offsetAtUTC :: "int \<Rightarrow> int"
  offsetAtLocal :: "int \<Rightarrow> int"
  parseDate :: "string \<Rightarrow> int option"

definition msPerDay :: int where
  "msPerDay = 86400000"

definition LocalTime :: "local_clock \<Rightarrow> int \<Rightarrow> int" where
  "LocalTime clk t = t + offsetAtUTC clk t"

definition UTC :: "local_clock \<Rightarrow> int \<Rightarrow> int" where
  "UTC clk t = t - offsetAtLocal clk t"

definition Day :: "int \<Rightarrow> int" where
  "Day t = t div msPerDay"

text \<open>
  \<^verbatim>\<open>new Date(now.getFullYear(), now.getMonth(), now.getDate())\<close>: the three getters
  read the local date of \<open>now\<close>, and the constructor gives the instant at which that
  local date begins. The day number of (year, month, date) is the day number of the
  local time it was read from, for every year the constructor does not remap (it
  remaps the years 0 to 99 only).
\<close>

definition localMidnight :: "local_clock \<Rightarrow> int \<Rightarrow> int" where
  "localMidnight clk now = UTC clk (Day (LocalTime clk now) * msPerDay)"

text \<open>
  \<^verbatim>\<open>d.setDate(d.getDate() - 7)\<close>: the local time of \<open>d\<close> moved back seven
  calendar days, the time within the day kept, read back into an instant.
\<close>

definition setDateMinus7 :: "local_clock \<Rightarrow> int \<Rightarrow> int" where
  "setDateMinus7 clk t = UTC clk (LocalTime clk t - 7 * msPerDay)"

text \<open>
  \<^verbatim>\<open>logDate >= bound\<close> on two Date objects compares their time values; an
  Invalid Date compares false with everything.
\<close>

definition onOrAfter :: "int option \<Rightarrow> int \<Rightarrow> bool" where
  "onOrAfter logDate bound = (case logDate of None \<Rightarrow> False | Some t \<Rightarrow> bound \<le> t)"

subsection \<open>calculateStats\<close>

record 'r VisitorStats =
  totalVisits :: nat
  browsers :: counts
  operatingSystems :: counts
  recentVisits :: "'r list"
  todayVisits :: nat
  lastWeekVisits :: nat

record 'r VisitorStatsDev = "'r VisitorStats" +
  deviceTypes :: counts
  timeZones :: counts

text \<open>The variables the \<^verbatim>\<open>forEach\<close> callback updates.\<close>

record loop_vars =
  v_browsers :: counts
  v_operatingSystems :: counts
  todayCount :: nat
  weekCount :: nat

record loop_vars_dev = loop_vars +
  v_deviceTypes :: counts
  v_timeZones :: counts

text \<open>
  The earlier stats page:
  \<^verbatim>\<open>
  const now = new Date()
  const today = new Date(now.getFullYear(), now.getMonth(), now.getDate())
  const lastWeek = new Date(today.getTime() - 7 * 24 * 60 * 60 * 1000)
  let todayCount = 0
  let weekCount = 0
  logs.forEach(log => {
    browsers[log.browser] = (browsers[log.browser] || 0) + 1
    operatingSystems[log.os] = (operatingSystems[log.os] || 0) + 1
    const visitDate = new Date(log.timestamp)
    if (visitDate >= today) { todayCount++ }
    if (visitDate >= lastWeek) { weekCount++ }
  })
  return { totalVisits: logs.length, browsers, operatingSystems,
           recentVisits: logs.slice(0, 50), todayVisits: todayCount, lastWeekVisits: weekCount }
  \<close>
\<close>

definition forEachBody_002 ::
  "local_clock \<Rightarrow> int \<Rightarrow> int \<Rightarrow> loop_vars \<Rightarrow> VisitorLogRow \<Rightarrow> loop_vars" where
  "forEachBody_002 clk today lastWeek v logEntry =
     (let visitDate = parseDate clk (timestamp logEntry) in
      \<lparr>v_browsers = increment (v_browsers v) (browser logEntry),
       v_operatingSystems = increment (v_operatingSystems v) (os logEntry),
       todayCount = (if onOrAfter visitDate today then todayCount v + 1 else todayCount v),
       weekCount = (if onOrAfter visitDate lastWeek then weekCount v + 1 else weekCount v)\<rparr>)"

definition calculateStats_002 ::
  "local_clock \<Rightarrow> int \<Rightarrow> VisitorLogRow list \<Rightarrow> VisitorLogRow VisitorStats" where
  "calculateStats_002 clk now logs =
     (let today = localMidnight clk now;
          lastWeek = today - 7 * 24 * 60 * 60 * 1000;
          v = foldl (forEachBody_002 clk today lastWeek)
                \<lparr>v_browsers = [], v_operatingSystems = [], todayCount = 0, weekCount = 0\<rparr>
                logs
      in \<lparr>totalVisits = length logs,
          browsers = v_browsers v,
          operatingSystems = v_operatingSystems v,
          recentVisits = take 50 logs,
          todayVisits = todayCount v,
          lastWeekVisits = weekCount v\<rparr>)"

text \<open>
  The later stats page (\<^verbatim>\<open>src/app/stats/page.tsx\<close>) also counts device types and
  time zones, and finds the start of the week with the calendar:
  \<^verbatim>\<open>
  const today = new Date(now.getFullYear(), now.getMonth(), now.getDate())
  const weekAgo = new Date(today)
  weekAgo.setDate(weekAgo.getDate() - 7)
  \<close>
\<close>

definition forEachBody ::
  "local_clock \<Rightarrow> int \<Rightarrow> int \<Rightarrow> loop_vars_dev \<Rightarrow> VisitorLogRowDev \<Rightarrow> loop_vars_dev" where
  "forEachBody clk today weekAgo v logEntry =
     (let logDate = parseDate clk (timestamp logEntry) in
      \<lparr>v_browsers = increment (v_browsers v) (browser logEntry),
       v_operatingSystems = increment (v_operatingSystems v) (os logEntry),
       todayCount = (if onOrAfter logDate today then todayCount v + 1 else todayCount v),
       weekCount = (if onOrAfter logDate weekAgo then weekCount v + 1 else weekCount v),
       v_deviceTypes = increment (v_deviceTypes v) (device_type logEntry),
       v_timeZones = increment (v_timeZones v) (time_zone logEntry)\<rparr>)"

definition calculateStats ::
  "local_clock \<Rightarrow> int \<Rightarrow> VisitorLogRowDev list \<Rightarrow> VisitorLogRowDev VisitorStatsDev" where
  "calculateStats clk now logs =
     (let today = localMidnight clk now;
          weekAgo = setDateMinus7 clk today;
          v = foldl (forEachBody clk today weekAgo)
                \<lparr>v_browsers = [], v_operatingSystems = [], todayCount = 0, weekCount = 0,
                 v_deviceTypes = [], v_timeZones = []\<rparr>
                logs
      in \<lparr>totalVisits = length logs,
          browsers = v_browsers v,
          operatingSystems = v_operatingSystems v,
          recentVisits = take 50 logs,
          todayVisits = todayCount v,
          lastWeekVisits = weekCount v,
          deviceTypes = v_deviceTypes v,
          timeZones = v_timeZones v\<rparr>)"

subsection \<open>Percentages\<close>

text \<open>
  \<^verbatim>\<open>
  const getPercentChange = (current: number, total: number) => {
    if (total === 0) return 0
    return ((current / total) * 100).toFixed(1)
  }
  \<close>
  The result is the number 0, or the string \<^verbatim>\<open>toFixed(1)\<close> makes of the
  quotient; \<open>ToFixed1 q\<close> stands for that string, with the quotient kept exact.
\<close>

datatype percent = JsNumber nat | ToFixed1 rat

definition getPercentChange :: "nat \<Rightarrow> nat \<Rightarrow> percent" where
  "getPercentChange current totalCount =
     (if totalCount = 0 then JsNumber 0
      else ToFixed1 ((of_nat current / of_nat totalCount) * 100))"

subsection \<open>fetchLogs\<close>

text \<open>
  The bulk read
  \<^verbatim>\<open>await supabase.from('visitor_logs').select('*').order('timestamp', {ascending: false})\<close>
  rejects, resolves with an \<^verbatim>\<open>error\<close>, or resolves with \<^verbatim>\<open>data\<close>
  (\<open>None\<close> for \<^verbatim>\<open>null\<close>).
\<close>

datatype 'r select_outcome = SelectRejects | SelectError | SelectData "'r list option"

datatype page_console_line = Error_FetchingLogs | Error_FailedToFetchLogs

record page_state =
  stats :: "VisitorLogRowDev VisitorStatsDev"
  loading :: bool
  page_console :: "page_console_line list"

text \<open>
  \<^verbatim>\<open>
  async function fetchLogs() {
    try {
      const { data, error } = await supabase ...
      if (error) { console.error('Error fetching logs:', error); return }
      setStats(calculateStats(data || []))
    } catch (error) {
      console.error('Failed to fetch logs:', error)
    } finally {
      setLoading(false)
    }
  }
  \<close>
  \<open>now\<close> is the instant \<^verbatim>\<open>new Date()\<close> reads inside \<^verbatim>\<open>calculateStats\<close>.
\<close>

definition fetchLogs ::
  "local_clock \<Rightarrow> int \<Rightarrow> VisitorLogRowDev select_outcome \<Rightarrow> page_state \<Rightarrow> page_state" where
  "fetchLogs clk now response st =
     (case response of
        SelectRejects \<Rightarrow>
          st\<lparr>page_console := page_console st @ [Error_FailedToFetchLogs], loading := False\<rparr>
      | SelectError \<Rightarrow>
          st\<lparr>page_console := page_console st @ [Error_FetchingLogs], loading := False\<rparr>
      | SelectData data \<Rightarrow>
          st\<lparr>stats := calculateStats clk now (case data of None \<Rightarrow> [] | Some logs \<Rightarrow> logs),
             loading := False\<rparr>)"

section \<open>Concrete environments\<close>

text \<open>
  A component at rest and one with an invocation in flight, a record, and three
  environments of the recorder: the store fails three times and would accept the
  fourth insert; the store fails once; the address lookup is aborted by the timer.
\<close>

definition idle :: recorder_state where
  "idle = \<lparr>isLoading = False, inserts = 0, persisted = [], sleeps = 0, console = []\<rparr>"

definition busy :: recorder_state where
  "busy = \<lparr>isLoading = True, inserts = 0, persisted = [], sleeps = 0, console = []\<rparr>"

definition visit_example :: VisitorLog where
  "visit_example =
     \<lparr>ip = ''203.0.113.7'', timestamp = ''2024-04-03T10:00:00.000Z'', os = ''Linux'',
      browser = ''Chrome''\<rparr>"

definition env_store_fails_thrice :: recorder_env where
  "env_store_fails_thrice =
     \<lparr>fetchIp = FetchResponse True (JsonValue ''203.0.113.7''),
      navigatorUserAgent = ''Mozilla/5.0 (X11; Linux x86_64) Chrome/120.0'',
      toISOString = ''2024-04-03T10:00:00.000Z'',
      insertOutcome = (\<lambda>k. if k < 3 then InsertError else InsertOk)\<rparr>"

definition env_store_fails_once :: recorder_env where
  "env_store_fails_once =
     \<lparr>fetchIp = FetchResponse True (JsonValue ''203.0.113.7''),
      navigatorUserAgent = ''Mozilla/5.0 (X11; Linux x86_64) Chrome/120.0'',
      toISOString = ''2024-04-03T10:00:00.000Z'',
      insertOutcome = (\<lambda>k. if k < 1 then InsertRejects else InsertOk)\<rparr>"

definition env_lookup_times_out :: recorder_env where
  "env_lookup_times_out =
     \<lparr>fetchIp = FetchAborted,
      navigatorUserAgent = ''Mozilla/5.0 (X11; Linux x86_64) Chrome/120.0'',
      toISOString = ''2024-04-03T10:00:00.000Z'',
      insertOutcome = (\<lambda>k. InsertOk)\<rparr>"

text \<open>
  Two viewers. \<open>clock_cet\<close> is on central European time around the clock change of
  2024-03-31T01:00:00Z (time value 1711846800000): UTC+1 before it, UTC+2 from it on;
  local times before 03:00 of that day are read with UTC+1. \<open>clock_utc\<close> is on UTC.
  Both parse the one timestamp used below, 2024-03-26T22:30:00.000Z, to its time value
  1711492200000.
\<close>

definition clock_cet :: local_clock where
  "clock_cet =
     \<lparr>offsetAtUTC = (\<lambda>t. if t < 1711846800000 then 3600000 else 7200000),
      offsetAtLocal = (\<lambda>t. if t < 1711854000000 then 3600000 else 7200000),
      parseDate = (\<lambda>s. if s = ''2024-03-26T22:30:00.000Z'' then Some 1711492200000 else None)\<rparr>"

definition clock_utc :: local_clock where
  "clock_utc =
     \<lparr>offsetAtUTC = (\<lambda>t. 0),
      offsetAtLocal = (\<lambda>t. 0),
      parseDate = (\<lambda>s. if s = ''2024-03-26T22:30:00.000Z'' then Some 1711492200000 else None)\<rparr>"

definition row_march26 :: VisitorLogRowDev where
  "row_march26 =
     \<lparr>ip = ''203.0.113.7'', timestamp = ''2024-03-26T22:30:00.000Z'', os = ''Linux'',
      browser = ''Chrome'', row_id = 1, device_type = ''desktop'', device_model = ''Unknown'',
      time_zone = ''Europe/Berlin''\<rparr>"

definition row_march26_002 :: VisitorLogRow where
  "row_march26_002 =
     \<lparr>ip = ''203.0.113.7'', timestamp = ''2024-03-26T22:30:00.000Z'', os = ''Linux'',
      browser = ''Chrome'', row_id = 1\<rparr>"

text \<open>
  A row whose categories are names every plain object inherits; the store holds
  whatever strings its writers sent.
\<close>

definition row_inherited :: VisitorLogRowDev where
  "row_inherited =
     \<lparr>ip = ''203.0.113.7'', timestamp = ''2024-03-26T22:30:00.000Z'', os = ''constructor'',
      browser = ''__proto__'', row_id = 2, device_type = ''desktop'', device_model = ''Unknown'',
      time_zone = ''Europe/Berlin''\<rparr>"

definition row_inherited_002 :: VisitorLogRow where
  "row_inherited_002 =
     \<lparr>ip = ''203.0.113.7'', timestamp = ''2024-03-26T22:30:00.000Z'', os = ''constructor'',
      browser = ''__proto__'', row_id = 2\<rparr>"

section \<open>Properties of the classifier\<close>

lemma str_includes_append: "str_includes (pre @ pat @ post) pat"
  by (simp add: str_includes_def)

lemma str_includes_Nil: "str_includes [] pat \<longleftrightarrow> pat = []"
  by (simp add: str_includes_def)

text \<open>
  C3: every user-agent string that contains the substring "Firefox" is classified as the
  browser "Firefox", whatever else the string contains.
\<close>

theorem detectBrowser_Firefox:
  "str_includes ua ''Firefox'' \<Longrightarrow> detectBrowser ua = ''Firefox''"
  by (simp add: detectBrowser_def)

theorem detectBrowser_Firefox_witness:
  "str_includes ''Mozilla/5.0 Chrome/1 Safari/1 Edge Opera Firefox/120.0'' ''Firefox'' \<and>
   detectBrowser ''Mozilla/5.0 Chrome/1 Safari/1 Edge Opera Firefox/120.0'' = ''Firefox''"
proof -
  have inc: "str_includes ''Mozilla/5.0 Chrome/1 Safari/1 Edge Opera Firefox/120.0'' ''Firefox''"
    using str_includes_append [of "''Mozilla/5.0 Chrome/1 Safari/1 Edge Opera ''" "''Firefox''" "''/120.0''"]
    by simp
  from inc detectBrowser_Firefox [OF inc] show ?thesis by simp
qed

text \<open>
  C4: for every user-agent string, the empty one included, the browser classification is
  one of Firefox, Chrome, Safari, Edge, Opera, Unknown and the OS classification is one
  of Windows, macOS, Linux, Android, iOS, Unknown; when no substring rule matches, the
  answer is Unknown.
\<close>

theorem classification_vocabulary:
  "detectBrowser ua \<in>
     {''Firefox'', ''Chrome'', ''Safari'', ''Edge'', ''Opera'', ''Unknown''} \<and>
   detectOS ua \<in>
     {''Windows'', ''macOS'', ''Linux'', ''Android'', ''iOS'', ''Unknown''} \<and>
   (\<not> str_includes ua ''Firefox'' \<and> \<not> str_includes ua ''Chrome'' \<and>
    \<not> str_includes ua ''Safari'' \<and> \<not> str_includes ua ''Edge'' \<and>
    \<not> str_includes ua ''Opera'' \<longrightarrow> detectBrowser ua = ''Unknown'') \<and>
   (\<not> str_includes ua ''Windows'' \<and> \<not> str_includes ua ''Mac'' \<and>
    \<not> str_includes ua ''Linux'' \<and> \<not> str_includes ua ''Android'' \<and>
    \<not> str_includes ua ''iOS'' \<longrightarrow> detectOS ua = ''Unknown'') \<and>
   detectBrowser [] = ''Unknown'' \<and> detectOS [] = ''Unknown''"
  by (simp add: detectBrowser_def detectOS_def str_includes_Nil)

theorem classification_vocabulary_witness:
  "detectBrowser ''curl/8.4.0'' = ''Unknown'' \<and> detectOS ''curl/8.4.0'' = ''Unknown'' \<and>
   detectBrowser ''curl/8.4.0'' \<in>
     {''Firefox'', ''Chrome'', ''Safari'', ''Edge'', ''Opera'', ''Unknown''} \<and>
   detectOS ''curl/8.4.0'' \<in>
     {''Windows'', ''macOS'', ''Linux'', ''Android'', ''iOS'', ''Unknown''}"
proof -
  have nb: "\<not> str_includes ''curl/8.4.0'' ''Firefox'' \<and> \<not> str_includes ''curl/8.4.0'' ''Chrome'' \<and>
      \<not> str_includes ''curl/8.4.0'' ''Safari'' \<and> \<not> str_includes ''curl/8.4.0'' ''Edge'' \<and>
      \<not> str_includes ''curl/8.4.0'' ''Opera''"
    unfolding str_includes_def by code_simp
  have no: "\<not> str_includes ''curl/8.4.0'' ''Windows'' \<and> \<not> str_includes ''curl/8.4.0'' ''Mac'' \<and>
      \<not> str_includes ''curl/8.4.0'' ''Linux'' \<and> \<not> str_includes ''curl/8.4.0'' ''Android'' \<and>
      \<not> str_includes ''curl/8.4.0'' ''iOS''"
    unfolding str_includes_def by code_simp
  from nb no classification_vocabulary [of "''curl/8.4.0''"] show ?thesis by blast
qed

section \<open>Properties of the retry loop\<close>

lemma insertLoop_0: "insertLoop env v 0 st = (None, st)"
  by (simp add: insertLoop.simps)

lemma insertLoop_Suc:
  "insertLoop env v (Suc r) st =
     (case tryInsert env v st of
        (None, st1) \<Rightarrow> (None, st1)
      | (Some error, st1) \<Rightarrow>
          insertLoop env v r
            ((if r = 0 then st1\<lparr>console := console st1 @ [Error_AfterAllRetries error]\<rparr> else st1)
               \<lparr>sleeps := sleeps st1 + 1\<rparr>))"
  by (subst insertLoop.simps) (simp add: Let_def split: prod.splits option.splits)

lemma tryInsert_ok:
  "insertOutcome env (inserts st) = InsertOk \<Longrightarrow>
   tryInsert env v st =
     (None, st\<lparr>inserts := inserts st + 1, persisted := persisted st @ [v],
               console := console st @ [Log_SuccessfullyLogged]\<rparr>)"
  by (simp add: tryInsert_def)

lemma tryInsert_fails:
  "insertOutcome env (inserts st) \<noteq> InsertOk \<Longrightarrow>
   \<exists>e. tryInsert env v st = (Some e, st\<lparr>inserts := inserts st + 1\<rparr>)"
  by (cases "insertOutcome env (inserts st)") (simp_all add: tryInsert_def)

lemma insertLoop_completes: "fst (insertLoop env v retries st) = None"
proof (induction retries arbitrary: st)
  case 0
  show ?case by (simp add: insertLoop_0)
next
  case (Suc r)
  show ?case
    by (simp add: insertLoop_Suc Suc.IH split: prod.splits option.splits)
qed

lemma insertLoop_isLoading: "isLoading (snd (insertLoop env v retries st)) = isLoading st"
proof (induction retries arbitrary: st)
  case 0
  show ?case by (simp add: insertLoop_0)
next
  case (Suc r)
  show ?case
  proof (cases "insertOutcome env (inserts st) = InsertOk")
    case True
    then show ?thesis by (simp add: insertLoop_Suc tryInsert_ok)
  next
    case False
    from tryInsert_fails [OF False, of v] obtain e
      where e: "tryInsert env v st = (Some e, st\<lparr>inserts := inserts st + 1\<rparr>)" ..
    show ?thesis by (simp add: insertLoop_Suc e Suc.IH)
  qed
qed

lemma insertLoop_inserts_le: "inserts (snd (insertLoop env v retries st)) \<le> inserts st + retries"
proof (induction retries arbitrary: st)
  case 0
  show ?case by (simp add: insertLoop_0)
next
  case (Suc r)
  show ?case
  proof (cases "insertOutcome env (inserts st) = InsertOk")
    case True
    then show ?thesis by (simp add: insertLoop_Suc tryInsert_ok)
  next
    case False
    from tryInsert_fails [OF False, of v] obtain e
      where e: "tryInsert env v st = (Some e, st\<lparr>inserts := inserts st + 1\<rparr>)" ..
    let ?st3 = "(if r = 0 then st\<lparr>inserts := inserts st + 1\<rparr>\<lparr>console := console st @ [Error_AfterAllRetries e]\<rparr>
                 else st\<lparr>inserts := inserts st + 1\<rparr>)\<lparr>sleeps := sleeps st + 1\<rparr>"
    have "insertLoop env v (Suc r) st = insertLoop env v r ?st3"
      by (simp add: insertLoop_Suc e)
    moreover have "inserts ?st3 = inserts st + 1" by simp
    ultimately show ?thesis using Suc.IH [of ?st3] by simp
  qed
qed

lemma insertLoop_exhausted:
  "(\<And>j. j < retries \<Longrightarrow> insertOutcome env (inserts st + j) \<noteq> InsertOk) \<Longrightarrow>
   inserts (snd (insertLoop env v retries st)) = inserts st + retries \<and>
   persisted (snd (insertLoop env v retries st)) = persisted st \<and>
   sleeps (snd (insertLoop env v retries st)) = sleeps st + retries"
proof (induction retries arbitrary: st)
  case 0
  show ?case by (simp add: insertLoop_0)
next
  case (Suc r)
  from Suc.prems [of 0] have f0: "insertOutcome env (inserts st) \<noteq> InsertOk" by simp
  from tryInsert_fails [OF f0, of v] obtain e
    where e: "tryInsert env v st = (Some e, st\<lparr>inserts := inserts st + 1\<rparr>)" ..
  let ?st3 = "(if r = 0 then st\<lparr>inserts := inserts st + 1\<rparr>\<lparr>console := console st @ [Error_AfterAllRetries e]\<rparr>
               else st\<lparr>inserts := inserts st + 1\<rparr>)\<lparr>sleeps := sleeps st + 1\<rparr>"
  have step: "insertLoop env v (Suc r) st = insertLoop env v r ?st3"
    by (simp add: insertLoop_Suc e)
  have st3: "inserts ?st3 = inserts st + 1" "persisted ?st3 = persisted st" "sleeps ?st3 = sleeps st + 1"
    by simp_all
  have "\<And>j. j < r \<Longrightarrow> insertOutcome env (inserts ?st3 + j) \<noteq> InsertOk"
    using Suc.prems [of "Suc _"] by (simp add: st3)
  from Suc.IH [of ?st3, OF this] show ?case
    by (simp add: step st3)
qed

lemma insertLoop_first_success:
  "k < retries \<Longrightarrow>
   (\<And>j. j < k \<Longrightarrow> insertOutcome env (inserts st + j) \<noteq> InsertOk) \<Longrightarrow>
   insertOutcome env (inserts st + k) = InsertOk \<Longrightarrow>
   inserts (snd (insertLoop env v retries st)) = inserts st + k + 1 \<and>
   persisted (snd (insertLoop env v retries st)) = persisted st @ [v] \<and>
   sleeps (snd (insertLoop env v retries st)) = sleeps st + k"
proof (induction retries arbitrary: st k)
  case 0
  then show ?case by simp
next
  case (Suc r)
  show ?case
  proof (cases k)
    case 0
    with Suc.prems(3) show ?thesis by (simp add: insertLoop_Suc tryInsert_ok)
  next
    case (Suc k')
    from Suc.prems(2) [of 0] Suc have f0: "insertOutcome env (inserts st) \<noteq> InsertOk" by simp
    from tryInsert_fails [OF f0, of v] obtain e
      where e: "tryInsert env v st = (Some e, st\<lparr>inserts := inserts st + 1\<rparr>)" ..
    let ?st3 = "(if r = 0 then st\<lparr>inserts := inserts st + 1\<rparr>\<lparr>console := console st @ [Error_AfterAllRetries e]\<rparr>
                 else st\<lparr>inserts := inserts st + 1\<rparr>)\<lparr>sleeps := sleeps st + 1\<rparr>"
    have step: "insertLoop env v (Suc r) st = insertLoop env v r ?st3"
      by (simp add: insertLoop_Suc e)
    have st3: "inserts ?st3 = inserts st + 1" "persisted ?st3 = persisted st" "sleeps ?st3 = sleeps st + 1"
      by simp_all
    have a: "k' < r" using Suc.prems(1) Suc by simp
    have b: "\<And>j. j < k' \<Longrightarrow> insertOutcome env (inserts ?st3 + j) \<noteq> InsertOk"
      using Suc.prems(2) [of "Suc _"] Suc by (simp add: st3)
    have c: "insertOutcome env (inserts ?st3 + k') = InsertOk"
      using Suc.prems(3) Suc by (simp add: st3)
    from Suc.IH [of k' ?st3, OF a b c] show ?thesis
      by (simp add: step st3 Suc)
  qed
qed

lemma insertLoop_exhausted_console:
  "0 < retries \<Longrightarrow>
   (\<And>j. j < retries \<Longrightarrow> insertOutcome env (inserts st + j) \<noteq> InsertOk) \<Longrightarrow>
   \<exists>e. console (snd (insertLoop env v retries st)) = console st @ [Error_AfterAllRetries e]"
proof (induction retries arbitrary: st)
  case 0
  then show ?case by simp
next
  case (Suc r)
  from Suc.prems(2) [of 0] have f0: "insertOutcome env (inserts st) \<noteq> InsertOk" by simp
  from tryInsert_fails [OF f0, of v] obtain e
    where e: "tryInsert env v st = (Some e, st\<lparr>inserts := inserts st + 1\<rparr>)" ..
  show ?case
  proof (cases "r = 0")
    case True
    then show ?thesis by (simp add: insertLoop_Suc e insertLoop_0)
  next
    case False
    let ?st3 = "st\<lparr>inserts := inserts st + 1, sleeps := sleeps st + 1\<rparr>"
    have step: "insertLoop env v (Suc r) st = insertLoop env v r ?st3"
      using False by (simp add: insertLoop_Suc e)
    have "\<And>j. j < r \<Longrightarrow> insertOutcome env (inserts ?st3 + j) \<noteq> InsertOk"
      using Suc.prems(2) [of "Suc _"] by simp
    from Suc.IH [of ?st3, OF _ this] False show ?thesis
      by (simp add: step)
  qed
qed

text \<open>
  C1, as the code has it: the append step, which \<^verbatim>\<open>logVisitorInfo\<close> starts with
  \<^verbatim>\<open>retries = 3\<close>, never throws and never issues more than 3 inserts. If the
  first 3 attempts fail it gives up after exactly 3 attempts and persists nothing,
  whatever a 4th attempt would have answered. If attempt \<open>k + 1\<close> (\<open>k < 3\<close>) is the
  first to succeed, the record is persisted on that attempt and no further attempt is
  made.
\<close>

theorem append_retry_bound:
  "fst (insertLoop env v 3 st) = None \<and>
   inserts (snd (insertLoop env v 3 st)) \<le> inserts st + 3 \<and>
   ((\<forall>j<3. insertOutcome env (inserts st + j) \<noteq> InsertOk) \<longrightarrow>
      inserts (snd (insertLoop env v 3 st)) = inserts st + 3 \<and>
      persisted (snd (insertLoop env v 3 st)) = persisted st) \<and>
   (\<forall>k<3. (\<forall>j<k. insertOutcome env (inserts st + j) \<noteq> InsertOk) \<and>
           insertOutcome env (inserts st + k) = InsertOk \<longrightarrow>
      inserts (snd (insertLoop env v 3 st)) = inserts st + k + 1 \<and>
      persisted (snd (insertLoop env v 3 st)) = persisted st @ [v])"
proof (intro conjI impI allI)
  show "fst (insertLoop env v 3 st) = None" by (rule insertLoop_completes)
  show "inserts (snd (insertLoop env v 3 st)) \<le> inserts st + 3" by (rule insertLoop_inserts_le)
next
  assume "\<forall>j<3. insertOutcome env (inserts st + j) \<noteq> InsertOk"
  then have "\<And>j. j < 3 \<Longrightarrow> insertOutcome env (inserts st + j) \<noteq> InsertOk" by blast
  from insertLoop_exhausted [of 3 env st v, OF this]
  show "inserts (snd (insertLoop env v 3 st)) = inserts st + 3"
    and "persisted (snd (insertLoop env v 3 st)) = persisted st" by simp_all
next
  fix k :: nat
  assume k: "k < 3"
    and h: "(\<forall>j<k. insertOutcome env (inserts st + j) \<noteq> InsertOk) \<and>
           insertOutcome env (inserts st + k) = InsertOk"
  from h have b: "\<And>j. j < k \<Longrightarrow> insertOutcome env (inserts st + j) \<noteq> InsertOk" by blast
  from h have c: "insertOutcome env (inserts st + k) = InsertOk" by blast
  from insertLoop_first_success [OF k b c, of v]
  show "inserts (snd (insertLoop env v 3 st)) = inserts st + k + 1"
    and "persisted (snd (insertLoop env v 3 st)) = persisted st @ [v]" by simp_all
qed

theorem append_retry_bound_witness:
  "inserts (snd (insertLoop env_store_fails_once visit_example 3 idle)) = 2 \<and>
   persisted (snd (insertLoop env_store_fails_once visit_example 3 idle)) = [visit_example] \<and>
   inserts (snd (insertLoop env_store_fails_thrice visit_example 3 idle)) = 3 \<and>
   persisted (snd (insertLoop env_store_fails_thrice visit_example 3 idle)) = [] \<and>
   fst (insertLoop env_store_fails_thrice visit_example 3 idle) = None"
proof -
  have once: "(\<forall>j<1. insertOutcome env_store_fails_once (inserts idle + j) \<noteq> InsertOk) \<and>
      insertOutcome env_store_fails_once (inserts idle + 1) = InsertOk"
    by (simp add: env_store_fails_once_def idle_def)
  have thrice: "\<forall>j<3. insertOutcome env_store_fails_thrice (inserts idle + j) \<noteq> InsertOk"
    by (simp add: env_store_fails_thrice_def idle_def)
  have start: "inserts idle = 0" "persisted idle = []"
    by (simp_all add: idle_def)
  have "(1::nat) < 3" by simp
  with append_retry_bound [of env_store_fails_once visit_example idle] once
  have "inserts (snd (insertLoop env_store_fails_once visit_example 3 idle)) = inserts idle + 1 + 1 \<and>
      persisted (snd (insertLoop env_store_fails_once visit_example 3 idle)) = persisted idle @ [visit_example]"
    by blast
  moreover from append_retry_bound [of env_store_fails_thrice visit_example idle] thrice
  have "inserts (snd (insertLoop env_store_fails_thrice visit_example 3 idle)) = inserts idle + 3 \<and>
      persisted (snd (insertLoop env_store_fails_thrice visit_example 3 idle)) = persisted idle \<and>
      fst (insertLoop env_store_fails_thrice visit_example 3 idle) = None"
    by blast
  ultimately show ?thesis by (simp add: start)
qed

text \<open>
  C1 as stated fails: when the store fails three times and would accept the fourth
  insert, \<^verbatim>\<open>logVisitorInfo\<close> stops after the third attempt and nothing is
  persisted.
\<close>

theorem fourth_attempt_counterexample:
  "insertOutcome env_store_fails_thrice 3 = InsertOk \<and>
   inserts (snd (logVisitorInfo env_store_fails_thrice idle)) = 3 \<and>
   persisted (snd (logVisitorInfo env_store_fails_thrice idle)) = [] \<and>
   fst (logVisitorInfo env_store_fails_thrice idle) = None"
  by (simp add: logVisitorInfo_def tryBlock_def Let_def numeral_3_eq_3 insertLoop_Suc insertLoop_0
      tryInsert_def catchBlock_def finallyBlock_def env_store_fails_thrice_def idle_def)

section \<open>Properties of the recorder\<close>

lemma catchBlock_completes: "fst (catchBlock r) = None"
  by (cases r) (simp add: catchBlock_def split: option.splits)

lemma finallyBlock_fst: "fst (finallyBlock r) = fst r"
  by (cases r) (simp add: finallyBlock_def)

lemma finallyBlock_resets: "\<not> isLoading (snd (finallyBlock r))"
  by (cases r) (simp add: finallyBlock_def)

lemma finallyBlock_fields:
  "console (snd (finallyBlock r)) = console (snd r)"
  "persisted (snd (finallyBlock r)) = persisted (snd r)"
  "inserts (snd (finallyBlock r)) = inserts (snd r)"
  by (cases r; simp add: finallyBlock_def)+

lemma logVisitorInfo_lookup_fails:
  assumes "\<not> isLoading st" and "tryBlock env (st\<lparr>isLoading := True\<rparr>) = (Some e, st\<lparr>isLoading := True\<rparr>)"
  shows "console (snd (logVisitorInfo env st)) =
           console st @ [if e = AbortError then Log_RequestTimedOut else Error_FailedToLog e] \<and>
         persisted (snd (logVisitorInfo env st)) = persisted st \<and>
         inserts (snd (logVisitorInfo env st)) = inserts st"
  using assms by (simp add: logVisitorInfo_def finallyBlock_fields catchBlock_def)

text \<open>
  C8: for every outcome of the address lookup, of the JSON parse and of the store,
  \<^verbatim>\<open>logVisitorInfo\<close> never throws to its caller. On every path of an invocation
  that starts (the loading flag is clear when it is called) each failure is only
  logged: a timeout, a rejected or unsuccessful lookup, a body that does not parse or
  holds \<^verbatim>\<open>null\<close>, and three failed inserts each add one console line and persist
  nothing, and the loading flag is clear again at the end. A call made while another
  invocation is in flight (the flag is set) returns at once, without throwing and
  without touching the state of the invocation in flight.
\<close>

theorem logVisitorInfo_absorbs_errors:
  "fst (logVisitorInfo env st) = None \<and>
   (\<not> isLoading st \<longrightarrow> \<not> isLoading (snd (logVisitorInfo env st))) \<and>
   (isLoading st \<longrightarrow> snd (logVisitorInfo env st) = st) \<and>
   (\<not> isLoading st \<and> fetchIp env = FetchAborted \<longrightarrow>
      console (snd (logVisitorInfo env st)) = console st @ [Log_RequestTimedOut] \<and>
      persisted (snd (logVisitorInfo env st)) = persisted st) \<and>
   (\<not> isLoading st \<and> fetchIp env = FetchRejects \<longrightarrow>
      console (snd (logVisitorInfo env st)) = console st @ [Error_FailedToLog FetchFailed] \<and>
      persisted (snd (logVisitorInfo env st)) = persisted st) \<and>
   (\<not> isLoading st \<and> fetchIp env = FetchResponse False body \<longrightarrow>
      console (snd (logVisitorInfo env st)) = console st @ [Error_FailedToLog FailedToFetchIP] \<and>
      persisted (snd (logVisitorInfo env st)) = persisted st) \<and>
   (\<not> isLoading st \<and> fetchIp env = FetchResponse True JsonRejects \<longrightarrow>
      console (snd (logVisitorInfo env st)) = console st @ [Error_FailedToLog JsonSyntaxError] \<and>
      persisted (snd (logVisitorInfo env st)) = persisted st) \<and>
   (\<not> isLoading st \<and> fetchIp env = FetchResponse True JsonNull \<longrightarrow>
      console (snd (logVisitorInfo env st)) = console st @ [Error_FailedToLog NullPropertyRead] \<and>
      persisted (snd (logVisitorInfo env st)) = persisted st) \<and>
   (\<not> isLoading st \<and> fetchIp env = FetchResponse True (JsonValue a) \<and>
    (\<forall>j<3. insertOutcome env (inserts st + j) \<noteq> InsertOk) \<longrightarrow>
      (\<exists>e. console (snd (logVisitorInfo env st)) = console st @ [Error_AfterAllRetries e]) \<and>
      persisted (snd (logVisitorInfo env st)) = persisted st)"
proof (intro conjI impI)
  show "fst (logVisitorInfo env st) = None"
    by (simp add: logVisitorInfo_def finallyBlock_fst catchBlock_completes)
  show "\<not> isLoading (snd (logVisitorInfo env st))" if "\<not> isLoading st"
    using that by (simp add: logVisitorInfo_def finallyBlock_resets)
  show "snd (logVisitorInfo env st) = st" if "isLoading st"
    using that by (simp add: logVisitorInfo_def)
next
  assume h: "\<not> isLoading st \<and> fetchIp env = FetchAborted"
  then have "tryBlock env (st\<lparr>isLoading := True\<rparr>) = (Some AbortError, st\<lparr>isLoading := True\<rparr>)"
    by (simp add: tryBlock_def)
  with h logVisitorInfo_lookup_fails [of st env AbortError]
  show "console (snd (logVisitorInfo env st)) = console st @ [Log_RequestTimedOut]"
    and "persisted (snd (logVisitorInfo env st)) = persisted st" by simp_all
next
  assume h: "\<not> isLoading st \<and> fetchIp env = FetchRejects"
  then have "tryBlock env (st\<lparr>isLoading := True\<rparr>) = (Some FetchFailed, st\<lparr>isLoading := True\<rparr>)"
    by (simp add: tryBlock_def)
  with h logVisitorInfo_lookup_fails [of st env FetchFailed]
  show "console (snd (logVisitorInfo env st)) = console st @ [Error_FailedToLog FetchFailed]"
    and "persisted (snd (logVisitorInfo env st)) = persisted st" by simp_all
next
  assume h: "\<not> isLoading st \<and> fetchIp env = FetchResponse False body"
  then have "tryBlock env (st\<lparr>isLoading := True\<rparr>) = (Some FailedToFetchIP, st\<lparr>isLoading := True\<rparr>)"
    by (simp add: tryBlock_def)
  with h logVisitorInfo_lookup_fails [of st env FailedToFetchIP]
  show "console (snd (logVisitorInfo env st)) = console st @ [Error_FailedToLog FailedToFetchIP]"
    and "persisted (snd (logVisitorInfo env st)) = persisted st" by simp_all
next
  assume h: "\<not> isLoading st \<and> fetchIp env = FetchResponse True JsonRejects"
  then have "tryBlock env (st\<lparr>isLoading := True\<rparr>) = (Some JsonSyntaxError, st\<lparr>isLoading := True\<rparr>)"
    by (simp add: tryBlock_def)
  with h logVisitorInfo_lookup_fails [of st env JsonSyntaxError]
  show "console (snd (logVisitorInfo env st)) = console st @ [Error_FailedToLog JsonSyntaxError]"
    and "persisted (snd (logVisitorInfo env st)) = persisted st" by simp_all
next
  assume h: "\<not> isLoading st \<and> fetchIp env = FetchResponse True JsonNull"
  then have "tryBlock env (st\<lparr>isLoading := True\<rparr>) = (Some NullPropertyRead, st\<lparr>isLoading := True\<rparr>)"
    by (simp add: tryBlock_def)
  with h logVisitorInfo_lookup_fails [of st env NullPropertyRead]
  show "console (snd (logVisitorInfo env st)) = console st @ [Error_FailedToLog NullPropertyRead]"
    and "persisted (snd (logVisitorInfo env st)) = persisted st" by simp_all
next
  assume h: "\<not> isLoading st \<and> fetchIp env = FetchResponse True (JsonValue a) \<and>
    (\<forall>j<3. insertOutcome env (inserts st + j) \<noteq> InsertOk)"
  let ?v = "\<lparr>ip = a, timestamp = toISOString env, os = detectOS (navigatorUserAgent env),
             browser = detectBrowser (navigatorUserAgent env)\<rparr>"
  let ?st1 = "st\<lparr>isLoading := True\<rparr>"
  from h have t: "tryBlock env ?st1 = insertLoop env ?v 3 ?st1"
    by (simp add: tryBlock_def Let_def)
  have c: "fst (insertLoop env ?v 3 ?st1) = None" by (rule insertLoop_completes)
  from h have f: "\<And>j. j < 3 \<Longrightarrow> insertOutcome env (inserts ?st1 + j) \<noteq> InsertOk" by simp
  from insertLoop_exhausted_console [of 3 env ?st1 ?v, OF _ f]
  obtain e where e: "console (snd (insertLoop env ?v 3 ?st1)) = console st @ [Error_AfterAllRetries e]"
    by auto
  from insertLoop_exhausted [of 3 env ?st1 ?v, OF f]
  have p: "persisted (snd (insertLoop env ?v 3 ?st1)) = persisted st" by simp
  have l: "snd (logVisitorInfo env st) = (snd (insertLoop env ?v 3 ?st1))\<lparr>isLoading := False\<rparr>"
    using h c by (cases "insertLoop env ?v 3 ?st1")
      (simp add: logVisitorInfo_def t catchBlock_def finallyBlock_def)
  show "\<exists>e. console (snd (logVisitorInfo env st)) = console st @ [Error_AfterAllRetries e]"
    using e by (simp add: l)
  show "persisted (snd (logVisitorInfo env st)) = persisted st"
    using p by (simp add: l)
qed

theorem logVisitorInfo_absorbs_errors_witness:
  "\<not> isLoading idle \<and> fetchIp env_lookup_times_out = FetchAborted \<and>
   fst (logVisitorInfo env_lookup_times_out idle) = None \<and>
   \<not> isLoading (snd (logVisitorInfo env_lookup_times_out idle)) \<and>
   console (snd (logVisitorInfo env_lookup_times_out idle)) = [Log_RequestTimedOut] \<and>
   persisted (snd (logVisitorInfo env_lookup_times_out idle)) = [] \<and>
   fetchIp env_store_fails_thrice = FetchResponse True (JsonValue ''203.0.113.7'') \<and>
   (\<exists>e. console (snd (logVisitorInfo env_store_fails_thrice idle)) = [Error_AfterAllRetries e]) \<and>
   persisted (snd (logVisitorInfo env_store_fails_thrice idle)) = [] \<and>
   snd (logVisitorInfo env_lookup_times_out busy) = busy"
proof -
  have h1: "\<not> isLoading idle \<and> fetchIp env_lookup_times_out = FetchAborted"
    by (simp add: idle_def env_lookup_times_out_def)
  have h2: "\<not> isLoading idle \<and>
      fetchIp env_store_fails_thrice = FetchResponse True (JsonValue ''203.0.113.7'') \<and>
      (\<forall>j<3. insertOutcome env_store_fails_thrice (inserts idle + j) \<noteq> InsertOk)"
    by (simp add: idle_def env_store_fails_thrice_def)
  have h3: "isLoading busy" by (simp add: busy_def)
  have start: "console idle = []" "persisted idle = []" by (simp_all add: idle_def)
  from logVisitorInfo_absorbs_errors [of env_lookup_times_out idle] h1
  have a: "fst (logVisitorInfo env_lookup_times_out idle) = None \<and>
      \<not> isLoading (snd (logVisitorInfo env_lookup_times_out idle)) \<and>
      console (snd (logVisitorInfo env_lookup_times_out idle)) = console idle @ [Log_RequestTimedOut] \<and>
      persisted (snd (logVisitorInfo env_lookup_times_out idle)) = persisted idle"
    by blast
  from logVisitorInfo_absorbs_errors [of env_store_fails_thrice idle _ "''203.0.113.7''"] h2
  have b: "(\<exists>e. console (snd (logVisitorInfo env_store_fails_thrice idle)) =
          console idle @ [Error_AfterAllRetries e]) \<and>
      persisted (snd (logVisitorInfo env_store_fails_thrice idle)) = persisted idle"
    by blast
  from logVisitorInfo_absorbs_errors [of env_lookup_times_out busy] h3
  have c: "snd (logVisitorInfo env_lookup_times_out busy) = busy" by blast
  from a b c h1 h2 show ?thesis by (simp add: start)
qed

section \<open>Properties of the counters\<close>

lemma increment_proto: "increment obj ''__proto__'' = obj"
  by (simp add: increment_def)

lemma increment_Nil:
  "key \<notin> set inheritedNames \<Longrightarrow> increment [] key = [(key, JNumber 1)]"
  by (simp add: increment_def getProp_def orZeroPlusOne_def inheritedNames_def)

lemma increment_Cons:
  "key \<noteq> ''__proto__'' \<Longrightarrow>
   increment ((k, w) # rest) key =
     (if k = key then (k, orZeroPlusOne w) # rest else (k, w) # increment rest key)"
  by (simp add: increment_def getProp_def Let_def)

lemma numericTotal_Cons:
  "numericTotal ((k, v) # rest) = Some t \<longleftrightarrow>
     (\<exists>n u. v = JNumber n \<and> numericTotal rest = Some u \<and> t = n + u)"
  by (cases v) auto

lemma numericTotal_increment:
  "key \<notin> set inheritedNames \<Longrightarrow> numericTotal obj = Some t \<Longrightarrow>
   numericTotal (increment obj key) = Some (t + 1)"
proof (induction obj arbitrary: t)
  case Nil
  then show ?case by (simp add: increment_Nil)
next
  case (Cons e obj)
  obtain k v where e: "e = (k, v)" by (cases e)
  from Cons.prems(1) have np: "key \<noteq> ''__proto__''" by (auto simp: inheritedNames_def)
  from Cons.prems(2) e obtain n u where v: "v = JNumber n" and u: "numericTotal obj = Some u"
    and t: "t = n + u" by (auto simp: numericTotal_Cons)
  show ?case
    using Cons.IH [OF Cons.prems(1) u]
    by (simp add: e v t u increment_Cons [OF np] orZeroPlusOne_def)
qed

lemma keys_increment:
  "key \<noteq> ''__proto__'' \<Longrightarrow> fst ` set (increment obj key) = insert key (fst ` set obj)"
proof (induction obj)
  case Nil
  then show ?case by (simp add: increment_def)
next
  case (Cons e obj)
  obtain k v where e: "e = (k, v)" by (cases e)
  from Cons show ?case by (auto simp: e increment_Cons)
qed

lemma distinct_increment:
  "distinct (map fst obj) \<Longrightarrow> distinct (map fst (increment obj key))"
proof (cases "key = ''__proto__''")
  case True
  assume "distinct (map fst obj)"
  with True show ?thesis by (simp add: increment_proto)
next
  case np: False
  assume "distinct (map fst obj)"
  then show ?thesis
  proof (induction obj)
    case Nil
    then show ?case by (simp add: increment_def)
  next
    case (Cons e obj)
    obtain k v where e: "e = (k, v)" by (cases e)
    from Cons show ?case using keys_increment [OF np, of obj]
      by (auto simp: e increment_Cons [OF np])
  qed
qed

lemma numericTotal_map_of:
  "numericTotal obj = Some t \<Longrightarrow> map_of obj key = Some v \<Longrightarrow> \<exists>n. v = JNumber n"
proof (induction obj arbitrary: t)
  case Nil
  then show ?case by simp
next
  case (Cons e obj)
  obtain k w where e: "e = (k, w)" by (cases e)
  from Cons.prems(1) e obtain n u where "w = JNumber n" and "numericTotal obj = Some u"
    by (auto simp: numericTotal_Cons)
  with Cons.IH Cons.prems(2) e show ?case by (auto split: if_splits)
qed

lemma map_of_increment:
  "key \<notin> set inheritedNames \<Longrightarrow> numericTotal obj = Some t \<Longrightarrow>
   map_of (increment obj key) =
     (map_of obj)(key \<mapsto> (case map_of obj key of Some (JNumber n) \<Rightarrow> JNumber (n + 1) | _ \<Rightarrow> JNumber 1))"
proof (induction obj arbitrary: t)
  case Nil
  then show ?case by (simp add: increment_Nil)
next
  case (Cons e obj)
  obtain k v where e: "e = (k, v)" by (cases e)
  from Cons.prems(1) have np: "key \<noteq> ''__proto__''" by (auto simp: inheritedNames_def)
  from Cons.prems(2) e obtain n u where v: "v = JNumber n" and u: "numericTotal obj = Some u"
    by (auto simp: numericTotal_Cons)
  show ?case
    using Cons.IH [OF Cons.prems(1) u]
    by (auto simp: e v increment_Cons [OF np] orZeroPlusOne_def fun_eq_iff)
qed

lemma numericTotal_foldl_increment:
  "\<forall>k\<in>set keys. k \<notin> set inheritedNames \<Longrightarrow> numericTotal obj = Some t \<Longrightarrow>
   numericTotal (foldl increment obj keys) = Some (t + length keys)"
proof (induction keys arbitrary: obj t)
  case Nil
  then show ?case by simp
next
  case (Cons k keys)
  from Cons.prems have "numericTotal (increment obj k) = Some (t + 1)"
    by (simp add: numericTotal_increment)
  from Cons.IH [OF _ this] Cons.prems(1) show ?case by simp
qed

lemma distinct_foldl_increment:
  "distinct (map fst obj) \<Longrightarrow> distinct (map fst (foldl increment obj keys))"
  by (induction keys arbitrary: obj) (simp_all add: distinct_increment)

lemma map_of_foldl_increment:
  "\<forall>k\<in>set keys. k \<notin> set inheritedNames \<Longrightarrow> numericTotal obj = Some t \<Longrightarrow>
   map_of (foldl increment obj keys) key =
     (if key \<in> set keys
      then Some (JNumber ((case map_of obj key of Some (JNumber n) \<Rightarrow> n | _ \<Rightarrow> 0) +
                          count_list keys key))
      else map_of obj key)"
proof (induction keys arbitrary: obj t)
  case Nil
  then show ?case by simp
next
  case (Cons k keys)
  from Cons.prems have safe: "k \<notin> set inheritedNames" and rest: "\<forall>k\<in>set keys. k \<notin> set inheritedNames"
    by simp_all
  from numericTotal_increment [OF safe Cons.prems(2)]
  have nt: "numericTotal (increment obj k) = Some (t + 1)" .
  note m = map_of_increment [OF safe Cons.prems(2)]
  have num: "\<And>v. map_of obj key = Some v \<Longrightarrow> \<exists>n. v = JNumber n"
    using numericTotal_map_of [OF Cons.prems(2)] by blast
  show ?case
    using Cons.IH [OF rest nt] num
    by (auto simp: m split: option.splits js_value.splits)
qed

lemma map_of_foldl_increment_empty:
  "\<forall>k\<in>set keys. k \<notin> set inheritedNames \<Longrightarrow>
   map_of (foldl increment [] keys) key =
     (if key \<in> set keys then Some (JNumber (count_list keys key)) else None)"
  using map_of_foldl_increment [of keys "[]" 0 key] by simp

lemma foldl_forEachBody:
  "foldl (forEachBody clk today weekAgo) v logs =
     \<lparr>v_browsers = foldl increment (v_browsers v) (map browser logs),
      v_operatingSystems = foldl increment (v_operatingSystems v) (map os logs),
      todayCount = todayCount v +
        length (filter (\<lambda>r. onOrAfter (parseDate clk (timestamp r)) today) logs),
      weekCount = weekCount v +
        length (filter (\<lambda>r. onOrAfter (parseDate clk (timestamp r)) weekAgo) logs),
      v_deviceTypes = foldl increment (v_deviceTypes v) (map device_type logs),
      v_timeZones = foldl increment (v_timeZones v) (map time_zone logs)\<rparr>"
  by (induction logs arbitrary: v) (simp_all add: forEachBody_def Let_def)

lemma foldl_forEachBody_002:
  "foldl (forEachBody_002 clk today lastWeek) v logs =
     \<lparr>v_browsers = foldl increment (v_browsers v) (map browser logs),
      v_operatingSystems = foldl increment (v_operatingSystems v) (map os logs),
      todayCount = todayCount v +
        length (filter (\<lambda>r. onOrAfter (parseDate clk (timestamp r)) today) logs),
      weekCount = weekCount v +
        length (filter (\<lambda>r. onOrAfter (parseDate clk (timestamp r)) lastWeek) logs)\<rparr>"
  by (induction logs arbitrary: v) (simp_all add: forEachBody_002_def Let_def)

lemma calculateStats_eq:
  "calculateStats clk now logs =
     \<lparr>totalVisits = length logs,
      browsers = foldl increment [] (map browser logs),
      operatingSystems = foldl increment [] (map os logs),
      recentVisits = take 50 logs,
      todayVisits =
        length (filter (\<lambda>r. onOrAfter (parseDate clk (timestamp r)) (localMidnight clk now)) logs),
      lastWeekVisits =
        length (filter (\<lambda>r. onOrAfter (parseDate clk (timestamp r))
                               (setDateMinus7 clk (localMidnight clk now))) logs),
      deviceTypes = foldl increment [] (map device_type logs),
      timeZones = foldl increment [] (map time_zone logs)\<rparr>"
  by (simp add: calculateStats_def Let_def foldl_forEachBody)

lemma calculateStats_002_eq:
  "calculateStats_002 clk now logs =
     \<lparr>totalVisits = length logs,
      browsers = foldl increment [] (map browser logs),
      operatingSystems = foldl increment [] (map os logs),
      recentVisits = take 50 logs,
      todayVisits =
        length (filter (\<lambda>r. onOrAfter (parseDate clk (timestamp r)) (localMidnight clk now)) logs),
      lastWeekVisits =
        length (filter (\<lambda>r. onOrAfter (parseDate clk (timestamp r))
                               (localMidnight clk now - 604800000)) logs)\<rparr>"
  by (simp add: calculateStats_002_def Let_def foldl_forEachBody_002)

lemma classifier_keys_not_inherited:
  "detectBrowser ua \<notin> set inheritedNames \<and> detectOS ua \<notin> set inheritedNames"
  by (simp add: detectBrowser_def detectOS_def inheritedNames_def inheritedFunctions_def)

lemma march26_not_inherited:
  "browser row_march26 \<notin> set inheritedNames \<and> os row_march26 \<notin> set inheritedNames \<and>
   browser row_march26_002 \<notin> set inheritedNames \<and> os row_march26_002 \<notin> set inheritedNames"
  by (simp add: row_march26_def row_march26_002_def inheritedNames_def inheritedFunctions_def)

lemma count_none:
  "\<forall>r\<in>set logs. \<not> P r \<Longrightarrow> length (filter P logs) = 0"
  by (induction logs) simp_all

lemma before_not_onOrAfter:
  "parseDate clk (timestamp r) = Some t \<Longrightarrow> t < bound \<Longrightarrow>
   \<not> onOrAfter (parseDate clk (timestamp r)) bound"
  by (simp add: onOrAfter_def)

lemma setDateMinus7_fixed_offset:
  "offsetAtLocal clk (LocalTime clk t - 7 * msPerDay) = offsetAtUTC clk t \<Longrightarrow>
   setDateMinus7 clk t = t - 7 * 24 * 60 * 60 * 1000"
  by (simp add: setDateMinus7_def UTC_def LocalTime_def msPerDay_def)

lemma count_mono:
  "(\<And>r. P r \<Longrightarrow> Q r) \<Longrightarrow> length (filter P logs) \<le> length (filter Q logs)"
  by (induction logs) auto

lemma onOrAfter_mono: "lo \<le> hi \<Longrightarrow> onOrAfter d hi \<Longrightarrow> onOrAfter d lo"
  by (auto simp: onOrAfter_def split: option.splits)

lemma setDateMinus7_le:
  assumes "\<forall>t. \<bar>offsetAtUTC clk t\<bar> < msPerDay \<and> \<bar>offsetAtLocal clk t\<bar> < msPerDay"
  shows "setDateMinus7 clk t \<le> t"
proof -
  from assms have "\<bar>offsetAtUTC clk t\<bar> < msPerDay"
    and "\<bar>offsetAtLocal clk (t + offsetAtUTC clk t - 7 * msPerDay)\<bar> < msPerDay" by blast+
  then show ?thesis
    by (simp add: setDateMinus7_def UTC_def LocalTime_def msPerDay_def)
qed

section \<open>Properties of the aggregate\<close>

text \<open>
  C2: for the empty log the aggregation yields totalVisits = 0, empty browser and OS
  groupings (and, on the later page, empty device-type and time-zone groupings, so no
  per-entry quotient is computed), todayVisits = 0 and lastWeekVisits = 0; the
  percentage function returns the number 0 whenever its total is 0, so every percentage
  the page computes from this aggregate is 0.
\<close>

theorem empty_log_stats:
  "calculateStats clk now [] =
     \<lparr>totalVisits = 0, browsers = [], operatingSystems = [], recentVisits = [],
      todayVisits = 0, lastWeekVisits = 0, deviceTypes = [], timeZones = []\<rparr> \<and>
   calculateStats_002 clk now [] =
     \<lparr>totalVisits = 0, browsers = [], operatingSystems = [], recentVisits = [],
      todayVisits = 0, lastWeekVisits = 0\<rparr> \<and>
   getPercentChange current 0 = JsNumber 0 \<and>
   getPercentChange current (totalVisits (calculateStats clk now [])) = JsNumber 0 \<and>
   getPercentChange current (totalVisits (calculateStats_002 clk now [])) = JsNumber 0"
  by (simp add: calculateStats_def calculateStats_002_def getPercentChange_def Let_def)

text \<open>
  C5, as the code has it: for every list of records and every observation instant, a
  record counts toward todayVisits exactly when its timestamp is on or after the local
  midnight of the observation instant (viewer's clock). It counts toward lastWeekVisits
  exactly when its timestamp is on or after that midnight minus 7 times 24 hours on the
  earlier page, and on or after the instant seven calendar days before that midnight on
  the later page; the two bounds agree whenever the viewer's offset from UTC is the same
  at both ends of the week. A log whose records are all timestamped before today's
  local midnight has todayVisits = 0.
\<close>

theorem today_and_week_windows:
  "todayVisits (calculateStats clk now logs) =
     length (filter (\<lambda>r. onOrAfter (parseDate clk (timestamp r)) (localMidnight clk now)) logs) \<and>
   todayVisits (calculateStats_002 clk now logs2) =
     length (filter (\<lambda>r. onOrAfter (parseDate clk (timestamp r)) (localMidnight clk now)) logs2) \<and>
   lastWeekVisits (calculateStats_002 clk now logs2) =
     length (filter (\<lambda>r. onOrAfter (parseDate clk (timestamp r))
                            (localMidnight clk now - 7 * 24 * 60 * 60 * 1000)) logs2) \<and>
   lastWeekVisits (calculateStats clk now logs) =
     length (filter (\<lambda>r. onOrAfter (parseDate clk (timestamp r))
                            (setDateMinus7 clk (localMidnight clk now))) logs) \<and>
   (offsetAtLocal clk (LocalTime clk (localMidnight clk now) - 7 * msPerDay) =
      offsetAtUTC clk (localMidnight clk now) \<longrightarrow>
    lastWeekVisits (calculateStats clk now logs) =
      length (filter (\<lambda>r. onOrAfter (parseDate clk (timestamp r))
                             (localMidnight clk now - 7 * 24 * 60 * 60 * 1000)) logs)) \<and>
   ((\<forall>r\<in>set logs. \<exists>t. parseDate clk (timestamp r) = Some t \<and> t < localMidnight clk now) \<longrightarrow>
    todayVisits (calculateStats clk now logs) = 0) \<and>
   ((\<forall>r\<in>set logs2. \<exists>t. parseDate clk (timestamp r) = Some t \<and> t < localMidnight clk now) \<longrightarrow>
    todayVisits (calculateStats_002 clk now logs2) = 0)"
proof (intro conjI impI)
  show "todayVisits (calculateStats clk now logs) =
     length (filter (\<lambda>r. onOrAfter (parseDate clk (timestamp r)) (localMidnight clk now)) logs)"
    by (simp add: calculateStats_eq)
  show "todayVisits (calculateStats_002 clk now logs2) =
     length (filter (\<lambda>r. onOrAfter (parseDate clk (timestamp r)) (localMidnight clk now)) logs2)"
    by (simp add: calculateStats_002_eq)
  show "lastWeekVisits (calculateStats_002 clk now logs2) =
     length (filter (\<lambda>r. onOrAfter (parseDate clk (timestamp r))
                            (localMidnight clk now - 7 * 24 * 60 * 60 * 1000)) logs2)"
    by (simp add: calculateStats_002_eq)
  show "lastWeekVisits (calculateStats clk now logs) =
     length (filter (\<lambda>r. onOrAfter (parseDate clk (timestamp r))
                            (setDateMinus7 clk (localMidnight clk now))) logs)"
    by (simp add: calculateStats_eq)
next
  assume "offsetAtLocal clk (LocalTime clk (localMidnight clk now) - 7 * msPerDay) =
      offsetAtUTC clk (localMidnight clk now)"
  from setDateMinus7_fixed_offset [OF this]
  show "lastWeekVisits (calculateStats clk now logs) =
      length (filter (\<lambda>r. onOrAfter (parseDate clk (timestamp r))
                             (localMidnight clk now - 7 * 24 * 60 * 60 * 1000)) logs)"
    by (simp add: calculateStats_eq)
next
  assume "\<forall>r\<in>set logs. \<exists>t. parseDate clk (timestamp r) = Some t \<and> t < localMidnight clk now"
  then have "\<forall>r\<in>set logs. \<not> onOrAfter (parseDate clk (timestamp r)) (localMidnight clk now)"
    by (auto dest: before_not_onOrAfter)
  from count_none [OF this] show "todayVisits (calculateStats clk now logs) = 0"
    by (simp add: calculateStats_eq)
next
  assume "\<forall>r\<in>set logs2. \<exists>t. parseDate clk (timestamp r) = Some t \<and> t < localMidnight clk now"
  then have "\<forall>r\<in>set logs2. \<not> onOrAfter (parseDate clk (timestamp r)) (localMidnight clk now)"
    by (auto dest: before_not_onOrAfter)
  from count_none [OF this] show "todayVisits (calculateStats_002 clk now logs2) = 0"
    by (simp add: calculateStats_002_eq)
qed

theorem today_and_week_windows_witness:
  "offsetAtLocal clock_utc (LocalTime clock_utc (localMidnight clock_utc 1711533600000) - 7 * msPerDay) =
     offsetAtUTC clock_utc (localMidnight clock_utc 1711533600000) \<and>
   parseDate clock_utc (timestamp row_march26) = Some 1711492200000 \<and>
   1711492200000 < localMidnight clock_utc 1711533600000 \<and>
   todayVisits (calculateStats clock_utc 1711533600000 [row_march26]) = 0 \<and>
   lastWeekVisits (calculateStats clock_utc 1711533600000 [row_march26]) = 1"
proof -
  have off: "offsetAtLocal clock_utc (LocalTime clock_utc (localMidnight clock_utc 1711533600000) - 7 * msPerDay) =
      offsetAtUTC clock_utc (localMidnight clock_utc 1711533600000)"
    by (simp add: clock_utc_def)
  have mid: "localMidnight clock_utc 1711533600000 = 1711497600000"
    by (simp add: localMidnight_def UTC_def Day_def LocalTime_def msPerDay_def clock_utc_def)
  have parse: "parseDate clock_utc (timestamp row_march26) = Some 1711492200000"
    by (simp add: clock_utc_def row_march26_def)
  have before: "\<forall>r\<in>set [row_march26]. \<exists>t. parseDate clock_utc (timestamp r) = Some t \<and>
      t < localMidnight clock_utc 1711533600000"
    by (simp add: parse mid)
  from today_and_week_windows [of clock_utc 1711533600000 "[row_march26]" "[]"] off before
  have "todayVisits (calculateStats clock_utc 1711533600000 [row_march26]) = 0 \<and>
      lastWeekVisits (calculateStats clock_utc 1711533600000 [row_march26]) =
        length (filter (\<lambda>r. onOrAfter (parseDate clock_utc (timestamp r))
           (localMidnight clock_utc 1711533600000 - 7 * 24 * 60 * 60 * 1000)) [row_march26])"
    by blast
  then show ?thesis using off by (simp add: parse mid onOrAfter_def)
qed

text \<open>
  C5 as stated fails on the later page when the clocks changed during the week. The
  viewer is on central European time and looks at 2024-04-03T10:00:00Z: today begins at
  1712095200000 (2024-04-02T22:00:00Z), the week at 1711494000000 (2024-03-26T23:00:00Z),
  which is 167 hours earlier. A record of 2024-03-26T22:30:00Z lies on or after midnight
  minus 7 times 24 hours, yet the later page does not count it toward lastWeekVisits;
  the earlier page does.
\<close>

theorem week_window_counterexample:
  "localMidnight clock_cet 1712138400000 = 1712095200000 \<and>
   setDateMinus7 clock_cet 1712095200000 = 1711494000000 \<and>
   parseDate clock_cet (timestamp row_march26) = Some 1711492200000 \<and>
   onOrAfter (parseDate clock_cet (timestamp row_march26))
     (localMidnight clock_cet 1712138400000 - 7 * 24 * 60 * 60 * 1000) \<and>
   lastWeekVisits (calculateStats clock_cet 1712138400000 [row_march26]) = 0 \<and>
   lastWeekVisits (calculateStats_002 clock_cet 1712138400000 [row_march26_002]) = 1"
  by (simp add: calculateStats_def calculateStats_002_def forEachBody_def forEachBody_002_def
      Let_def localMidnight_def setDateMinus7_def LocalTime_def UTC_def Day_def msPerDay_def
      onOrAfter_def clock_cet_def row_march26_def row_march26_002_def)

text \<open>
  C6: running \<^verbatim>\<open>fetchLogs\<close> twice in succession on the same answer of the store
  and at the same observation instant leaves the same aggregate as running it once; after
  a successful read the aggregate is a function of the rows read and the clock alone,
  whatever the page showed before.
\<close>

theorem fetchLogs_idempotent:
  "stats (fetchLogs clk now response (fetchLogs clk now response st)) =
     stats (fetchLogs clk now response st) \<and>
   stats (fetchLogs clk now (SelectData data) st) =
     stats (fetchLogs clk now (SelectData data) st') \<and>
   stats (fetchLogs clk now (SelectData data) st) =
     calculateStats clk now (case data of None \<Rightarrow> [] | Some logs \<Rightarrow> logs)"
  by (cases response) (simp_all add: fetchLogs_def)

text \<open>
  C7: for a log holding exactly one record with os "Linux", browser "Chrome" and
  timestamp T, the aggregation reports browsers["Chrome"] = 1,
  operatingSystems["Linux"] = 1 and totalVisits = 1.
\<close>

theorem single_record_counts:
  "map_of (browsers (calculateStats clk now
       [r\<lparr>timestamp := T, os := ''Linux'', browser := ''Chrome''\<rparr>])) ''Chrome'' = Some (JNumber 1) \<and>
   map_of (operatingSystems (calculateStats clk now
       [r\<lparr>timestamp := T, os := ''Linux'', browser := ''Chrome''\<rparr>])) ''Linux'' = Some (JNumber 1) \<and>
   totalVisits (calculateStats clk now
       [r\<lparr>timestamp := T, os := ''Linux'', browser := ''Chrome''\<rparr>]) = 1 \<and>
   map_of (browsers (calculateStats_002 clk now
       [r2\<lparr>timestamp := T, os := ''Linux'', browser := ''Chrome''\<rparr>])) ''Chrome'' = Some (JNumber 1) \<and>
   map_of (operatingSystems (calculateStats_002 clk now
       [r2\<lparr>timestamp := T, os := ''Linux'', browser := ''Chrome''\<rparr>])) ''Linux'' = Some (JNumber 1) \<and>
   totalVisits (calculateStats_002 clk now
       [r2\<lparr>timestamp := T, os := ''Linux'', browser := ''Chrome''\<rparr>]) = 1"
  by (simp add: calculateStats_def calculateStats_002_def forEachBody_def forEachBody_002_def Let_def
      increment_def getProp_def orZeroPlusOne_def inheritedFunctions_def)

text \<open>
  C9: for every list of records and every observation instant,
  todayVisits \<open>\<le>\<close> lastWeekVisits \<open>\<le>\<close> totalVisits. On the later page the first
  inequality rests on the start of the week not lying after the start of today, which
  holds for every time zone whose offsets from UTC stay below 24 hours.
\<close>

theorem window_counts_ordered:
  "((\<forall>t. \<bar>offsetAtUTC clk t\<bar> < msPerDay \<and> \<bar>offsetAtLocal clk t\<bar> < msPerDay) \<longrightarrow>
      todayVisits (calculateStats clk now logs) \<le> lastWeekVisits (calculateStats clk now logs)) \<and>
   lastWeekVisits (calculateStats clk now logs) \<le> totalVisits (calculateStats clk now logs) \<and>
   todayVisits (calculateStats_002 clk now logs2) \<le> lastWeekVisits (calculateStats_002 clk now logs2) \<and>
   lastWeekVisits (calculateStats_002 clk now logs2) \<le> totalVisits (calculateStats_002 clk now logs2)"
proof (intro conjI impI)
  assume "\<forall>t. \<bar>offsetAtUTC clk t\<bar> < msPerDay \<and> \<bar>offsetAtLocal clk t\<bar> < msPerDay"
  from setDateMinus7_le [OF this]
  have "setDateMinus7 clk (localMidnight clk now) \<le> localMidnight clk now" .
  then have "length (filter (\<lambda>r. onOrAfter (parseDate clk (timestamp r)) (localMidnight clk now)) logs)
      \<le> length (filter (\<lambda>r. onOrAfter (parseDate clk (timestamp r))
                                (setDateMinus7 clk (localMidnight clk now))) logs)"
    by (intro count_mono) (rule onOrAfter_mono)
  then show "todayVisits (calculateStats clk now logs) \<le> lastWeekVisits (calculateStats clk now logs)"
    by (simp add: calculateStats_eq)
next
  show "lastWeekVisits (calculateStats clk now logs) \<le> totalVisits (calculateStats clk now logs)"
    by (simp add: calculateStats_eq)
  show "lastWeekVisits (calculateStats_002 clk now logs2) \<le> totalVisits (calculateStats_002 clk now logs2)"
    by (simp add: calculateStats_002_eq)
  have "localMidnight clk now - 604800000 \<le> localMidnight clk now" by simp
  then have "length (filter (\<lambda>r. onOrAfter (parseDate clk (timestamp r)) (localMidnight clk now)) logs2)
      \<le> length (filter (\<lambda>r. onOrAfter (parseDate clk (timestamp r))
                                (localMidnight clk now - 604800000)) logs2)"
    by (intro count_mono) (rule onOrAfter_mono)
  then show "todayVisits (calculateStats_002 clk now logs2) \<le> lastWeekVisits (calculateStats_002 clk now logs2)"
    by (simp add: calculateStats_002_eq)
qed

theorem window_counts_ordered_witness:
  "(\<forall>t. \<bar>offsetAtUTC clock_cet t\<bar> < msPerDay \<and> \<bar>offsetAtLocal clock_cet t\<bar> < msPerDay) \<and>
   todayVisits (calculateStats clock_cet 1712138400000 [row_march26, row_march26])
     \<le> lastWeekVisits (calculateStats clock_cet 1712138400000 [row_march26, row_march26]) \<and>
   lastWeekVisits (calculateStats clock_cet 1712138400000 [row_march26, row_march26])
     \<le> totalVisits (calculateStats clock_cet 1712138400000 [row_march26, row_march26])"
proof -
  have bound: "\<forall>t. \<bar>offsetAtUTC clock_cet t\<bar> < msPerDay \<and> \<bar>offsetAtLocal clock_cet t\<bar> < msPerDay"
    by (simp add: clock_cet_def msPerDay_def)
  from window_counts_ordered [of clock_cet 1712138400000 "[row_march26, row_march26]" "[]"] bound
  show ?thesis by blast
qed

text \<open>
  C10, as the code has it: for every list of records in which no browser value and no
  os value is a name that a plain object inherits (\<^verbatim>\<open>__proto__\<close>,
  \<^verbatim>\<open>constructor\<close>, \<^verbatim>\<open>toString\<close>, ...), the per-browser counts sum to
  totalVisits and the per-OS counts sum to totalVisits, and the entry of a category is
  the number of records that carry it. Each grouping has one entry per key for every
  list of records, and no value the classifier of the recorder returns is an inherited
  name.
\<close>

theorem grouping_counts_sum_to_total:
  "((\<forall>r\<in>set logs. browser r \<notin> set inheritedNames \<and> os r \<notin> set inheritedNames) \<longrightarrow>
      numericTotal (browsers (calculateStats clk now logs)) =
        Some (totalVisits (calculateStats clk now logs)) \<and>
      numericTotal (operatingSystems (calculateStats clk now logs)) =
        Some (totalVisits (calculateStats clk now logs)) \<and>
      map_of (browsers (calculateStats clk now logs)) b =
        (if b \<in> set (map browser logs)
         then Some (JNumber (count_list (map browser logs) b)) else None) \<and>
      map_of (operatingSystems (calculateStats clk now logs)) s =
        (if s \<in> set (map os logs)
         then Some (JNumber (count_list (map os logs) s)) else None)) \<and>
   distinct (map fst (browsers (calculateStats clk now logs))) \<and>
   distinct (map fst (operatingSystems (calculateStats clk now logs))) \<and>
   ((\<forall>r\<in>set logs2. browser r \<notin> set inheritedNames \<and> os r \<notin> set inheritedNames) \<longrightarrow>
      numericTotal (browsers (calculateStats_002 clk now logs2)) =
        Some (totalVisits (calculateStats_002 clk now logs2)) \<and>
      numericTotal (operatingSystems (calculateStats_002 clk now logs2)) =
        Some (totalVisits (calculateStats_002 clk now logs2))) \<and>
   distinct (map fst (browsers (calculateStats_002 clk now logs2))) \<and>
   distinct (map fst (operatingSystems (calculateStats_002 clk now logs2))) \<and>
   detectBrowser ua \<notin> set inheritedNames \<and> detectOS ua \<notin> set inheritedNames"
proof (intro conjI impI)
  assume safe: "\<forall>r\<in>set logs. browser r \<notin> set inheritedNames \<and> os r \<notin> set inheritedNames"
  then have sb: "\<forall>k\<in>set (map browser logs). k \<notin> set inheritedNames"
    and so: "\<forall>k\<in>set (map os logs). k \<notin> set inheritedNames" by auto
  from numericTotal_foldl_increment [OF sb, of "[]" 0]
  show "numericTotal (browsers (calculateStats clk now logs)) =
        Some (totalVisits (calculateStats clk now logs))"
    by (simp add: calculateStats_eq)
  from numericTotal_foldl_increment [OF so, of "[]" 0]
  show "numericTotal (operatingSystems (calculateStats clk now logs)) =
        Some (totalVisits (calculateStats clk now logs))"
    by (simp add: calculateStats_eq)
  from map_of_foldl_increment_empty [OF sb, of b]
  show "map_of (browsers (calculateStats clk now logs)) b =
        (if b \<in> set (map browser logs)
         then Some (JNumber (count_list (map browser logs) b)) else None)"
    by (simp add: calculateStats_eq)
  from map_of_foldl_increment_empty [OF so, of s]
  show "map_of (operatingSystems (calculateStats clk now logs)) s =
        (if s \<in> set (map os logs)
         then Some (JNumber (count_list (map os logs) s)) else None)"
    by (simp add: calculateStats_eq)
next
  assume safe: "\<forall>r\<in>set logs2. browser r \<notin> set inheritedNames \<and> os r \<notin> set inheritedNames"
  then have sb: "\<forall>k\<in>set (map browser logs2). k \<notin> set inheritedNames"
    and so: "\<forall>k\<in>set (map os logs2). k \<notin> set inheritedNames" by auto
  from numericTotal_foldl_increment [OF sb, of "[]" 0]
  show "numericTotal (browsers (calculateStats_002 clk now logs2)) =
        Some (totalVisits (calculateStats_002 clk now logs2))"
    by (simp add: calculateStats_002_eq)
  from numericTotal_foldl_increment [OF so, of "[]" 0]
  show "numericTotal (operatingSystems (calculateStats_002 clk now logs2)) =
        Some (totalVisits (calculateStats_002 clk now logs2))"
    by (simp add: calculateStats_002_eq)
next
  show "distinct (map fst (browsers (calculateStats clk now logs)))"
    and "distinct (map fst (operatingSystems (calculateStats clk now logs)))"
    by (simp_all add: calculateStats_eq distinct_foldl_increment)
  show "distinct (map fst (browsers (calculateStats_002 clk now logs2)))"
    and "distinct (map fst (operatingSystems (calculateStats_002 clk now logs2)))"
    by (simp_all add: calculateStats_002_eq distinct_foldl_increment)
  show "detectBrowser ua \<notin> set inheritedNames" and "detectOS ua \<notin> set inheritedNames"
    using classifier_keys_not_inherited [of ua] by simp_all
qed

theorem grouping_counts_sum_to_total_witness:
  "browser row_march26 \<notin> set inheritedNames \<and> os row_march26 \<notin> set inheritedNames \<and>
   browser row_march26_002 \<notin> set inheritedNames \<and> os row_march26_002 \<notin> set inheritedNames \<and>
   numericTotal (browsers (calculateStats clock_utc 1711533600000 [row_march26, row_march26])) = Some 2 \<and>
   numericTotal (operatingSystems (calculateStats clock_utc 1711533600000 [row_march26, row_march26])) = Some 2 \<and>
   map_of (browsers (calculateStats clock_utc 1711533600000 [row_march26, row_march26])) ''Chrome'' =
     Some (JNumber 2) \<and>
   numericTotal (browsers (calculateStats_002 clock_utc 1711533600000 [row_march26_002])) = Some 1 \<and>
   numericTotal (operatingSystems (calculateStats_002 clock_utc 1711533600000 [row_march26_002])) = Some 1"
proof -
  note h = march26_not_inherited
  from h have s1: "\<forall>r\<in>set [row_march26, row_march26].
      browser r \<notin> set inheritedNames \<and> os r \<notin> set inheritedNames" by simp
  from h have s2: "\<forall>r\<in>set [row_march26_002].
      browser r \<notin> set inheritedNames \<and> os r \<notin> set inheritedNames" by simp
  have t1: "totalVisits (calculateStats clock_utc 1711533600000 [row_march26, row_march26]) = 2"
    by (simp add: calculateStats_def Let_def)
  have t2: "totalVisits (calculateStats_002 clock_utc 1711533600000 [row_march26_002]) = 1"
    by (simp add: calculateStats_002_def Let_def)
  have c: "browser row_march26 = ''Chrome''" by (simp add: row_march26_def)
  from grouping_counts_sum_to_total
    [of "[row_march26, row_march26]" clock_utc 1711533600000 "''Chrome''" _ "[row_march26_002]"]
    s1 s2
  have "numericTotal (browsers (calculateStats clock_utc 1711533600000 [row_march26, row_march26])) =
        Some (totalVisits (calculateStats clock_utc 1711533600000 [row_march26, row_march26]))"
    and "numericTotal (operatingSystems (calculateStats clock_utc 1711533600000 [row_march26, row_march26])) =
        Some (totalVisits (calculateStats clock_utc 1711533600000 [row_march26, row_march26]))"
    and "map_of (browsers (calculateStats clock_utc 1711533600000 [row_march26, row_march26])) ''Chrome'' =
        (if ''Chrome'' \<in> set (map browser [row_march26, row_march26])
         then Some (JNumber (count_list (map browser [row_march26, row_march26]) ''Chrome'')) else None)"
    and "numericTotal (browsers (calculateStats_002 clock_utc 1711533600000 [row_march26_002])) =
        Some (totalVisits (calculateStats_002 clock_utc 1711533600000 [row_march26_002]))"
    and "numericTotal (operatingSystems (calculateStats_002 clock_utc 1711533600000 [row_march26_002])) =
        Some (totalVisits (calculateStats_002 clock_utc 1711533600000 [row_march26_002]))"
    by blast+
  with h show ?thesis by (simp add: t1 t2 c)
qed

text \<open>
  C10 as stated fails for a record whose categories are inherited names. With browser
  \<^verbatim>\<open>__proto__\<close> the assignment is swallowed by the inherited setter and the
  browsers grouping stays empty, so its counts sum to 0 with totalVisits = 1; with os
  \<^verbatim>\<open>constructor\<close> the entry becomes a string, not a count.
\<close>

theorem inherited_key_counterexample:
  "totalVisits (calculateStats clock_utc 1711533600000 [row_inherited]) = 1 \<and>
   browsers (calculateStats clock_utc 1711533600000 [row_inherited]) = [] \<and>
   numericTotal (browsers (calculateStats clock_utc 1711533600000 [row_inherited])) = Some 0 \<and>
   operatingSystems (calculateStats clock_utc 1711533600000 [row_inherited]) =
     [(''constructor'', JString (SourceOf ''constructor'' ''1''))] \<and>
   numericTotal (operatingSystems (calculateStats clock_utc 1711533600000 [row_inherited])) = None \<and>
   totalVisits (calculateStats_002 clock_utc 1711533600000 [row_inherited_002]) = 1 \<and>
   browsers (calculateStats_002 clock_utc 1711533600000 [row_inherited_002]) = [] \<and>
   operatingSystems (calculateStats_002 clock_utc 1711533600000 [row_inherited_002]) =
     [(''constructor'', JString (SourceOf ''constructor'' ''1''))]"
  by (simp add: calculateStats_def calculateStats_002_def forEachBody_def forEachBody_002_def
      Let_def increment_def getProp_def orZeroPlusOne_def inheritedFunctions_def
      row_inherited_def row_inherited_002_def)

end
